theory Spec2Isabelle
  imports Main "HOL-Library.Word" "HOL-Library.Sublist"
begin

section \<open>The upload controller of \<open>script.js\<close>\<close>

text \<open>
  The repository is one script: a click handler on \<open>#uploadBtn\<close> that posts the selected
  file to a fixed endpoint and offers the response for download. The handler is an
  \<open>async\<close> function with two \<open>await\<close>s (\<open>fetch\<close> and \<open>res.blob()\<close>). It is modelled as
  a coroutine: each run between two suspension points is a function on the state of the
  page, and what the network or the DOM answers is an argument of the run that follows.
\<close>

subsection \<open>Strings\<close>

text \<open>
  A JavaScript string is a sequence of UTF-16 code units. ASCII literals of the source are
  written \<open>js ''...''\<close>; the Japanese literals are given by their code units.
\<close>

type_synonym code_unit = "16 word"
type_synonym jsstring = "code_unit list"

definition js :: "string \<Rightarrow> jsstring" where
  "js cs = map (\<lambda>c. of_nat (of_char c)) cs"

text \<open>\<open>String(n)\<close> for a non-negative integer \<open>n\<close>, as a template literal embeds it.\<close>

definition digit :: "nat \<Rightarrow> code_unit" where
  "digit d = of_nat (48 + d)"

fun decimal :: "nat \<Rightarrow> jsstring" where
  "decimal n = (if n < 10 then [digit n] else decimal (n div 10) @ [digit (n mod 10)])"

declare decimal.simps [simp del]

text \<open>
  \<open>s.replace(pat, rep)\<close> with a string pattern: the first occurrence of \<open>pat\<close> in \<open>s\<close>
  is replaced, and \<open>s\<close> is returned as it is when there is none. (The replacement
  \<open>'.md'\<close> has no \<open>$\<close>, so it is taken literally.)
\<close>

fun replace :: "jsstring \<Rightarrow> jsstring \<Rightarrow> jsstring \<Rightarrow> jsstring" where
  "replace pat rep [] = (if pat = [] then rep else [])"
| "replace pat rep (c # cs) =
     (if prefix pat (c # cs) then rep @ drop (length pat) (c # cs)
      else c # replace pat rep cs)"

subsection \<open>The regular expression \<open>/filename="(.+)"/\<close>\<close>

text \<open>
  Without the \<open>s\<close> flag, \<open>.\<close> matches every code unit but the four line terminators.
\<close>

definition line_terminator :: "code_unit \<Rightarrow> bool" where
  "line_terminator c = (c = 0x0A \<or> c = 0x0D \<or> c = 0x2028 \<or> c = 0x2029)"

definition quote :: code_unit where
  "quote = 0x22"

definition filename_eq_quote :: jsstring where
  "filename_eq_quote = js ''filename='' @ [quote]"

text \<open>
  \<open>(.+)"\<close> at the head of \<open>s\<close>: the greedy \<open>.+\<close> first takes the whole run of
  \<open>n\<close> code units that are not line terminators and gives them back one by one until a
  quote follows; it keeps at least one.
\<close>

fun backtrack :: "jsstring \<Rightarrow> nat \<Rightarrow> jsstring option" where
  "backtrack s 0 = None"
| "backtrack s (Suc n) =
     (if Suc n < length s \<and> s ! Suc n = quote then Some (take (Suc n) s)
      else backtrack s n)"

definition dot_plus_quote :: "jsstring \<Rightarrow> jsstring option" where
  "dot_plus_quote s = backtrack s (length (takeWhile (\<lambda>c. \<not> line_terminator c) s))"

text \<open>The whole pattern tried at the head of \<open>s\<close>; the result is capture group 1.\<close>

definition match_here :: "jsstring \<Rightarrow> jsstring option" where
  "match_here s =
     (if prefix filename_eq_quote s then dot_plus_quote (drop (length filename_eq_quote) s)
      else None)"

text \<open>
  \<open>s.match(/filename="(.+)"/)\<close>, read at index 1: the pattern is tried at each start
  position from the left, and the first position where it matches wins. \<open>None\<close> is the
  \<open>null\<close> of a failed match.
\<close>

fun match_filename :: "jsstring \<Rightarrow> jsstring option" where
  "match_filename [] = match_here []"
| "match_filename (c # cs) =
     (case match_here (c # cs) of
        Some g \<Rightarrow> Some g
      | None \<Rightarrow> match_filename cs)"

subsection \<open>The page, the network and the DOM\<close>

type_synonym blob = "8 word list"

record jsfile =
  name :: jsstring
  content :: blob

text \<open>The arguments of \<open>fetch\<close>: the URL, and the \<open>method\<close> and \<open>body\<close> of its options.\<close>

record request =
  url :: jsstring
  http_method :: jsstring
  body :: "(jsstring \<times> jsfile) list"

text \<open>
  A \<open>Response\<close>. Its \<open>headers\<close> are keyed by lower-case name, as \<open>Headers.get\<close> looks
  them up; \<open>None\<close> is the \<open>null\<close> of an absent header. \<open>ok\<close> is the getter of the
  Fetch API: the status is in the range 200 to 299.
\<close>

record response =
  status :: nat
  headers :: "jsstring \<rightharpoonup> jsstring"

definition ok :: "response \<Rightarrow> bool" where
  "ok res = (200 \<le> status res \<and> status res \<le> 299)"

text \<open>What a rejected promise or a throwing DOM call carries: an error object.\<close>

datatype exn = Error (message: jsstring)

datatype object_url = ObjectURL blob

record anchor =
  href :: object_url
  download :: jsstring

datatype dom_call =
    CreateObjectURL blob
  | CreateElement jsstring
  | AppendChild anchor
  | AnchorClick anchor
  | AnchorRemove anchor

text \<open>Everything the handler does to the outside, in the order it does it.\<close>

datatype event =
    SetStatus jsstring
  | SetDisabled bool
  | Fetch request
  | ConsoleLog response
  | ReadBlob response
  | Dom dom_call

text \<open>
  The state the script owns: \<open>status.textContent\<close>, \<open>uploadBtn.disabled\<close>, and the
  trace of its effects so far.
\<close>

record page =
  status_text :: jsstring
  disabled :: bool
  trace :: "event list"

definition emit :: "event \<Rightarrow> page \<Rightarrow> page" where
  "emit e s = s\<lparr>trace := trace s @ [e]\<rparr>"

definition set_status :: "jsstring \<Rightarrow> page \<Rightarrow> page" where
  "set_status t s = emit (SetStatus t) (s\<lparr>status_text := t\<rparr>)"

definition set_disabled :: "bool \<Rightarrow> page \<Rightarrow> page" where
  "set_disabled b s = emit (SetDisabled b) (s\<lparr>disabled := b\<rparr>)"

text \<open>
  The DOM calls of the download may throw; \<open>faults\<close> says which call throws what. A
  call that throws has no effect, and the calls after it do not happen.
\<close>

type_synonym faults = "dom_call \<Rightarrow> exn option"

fun dom_calls :: "faults \<Rightarrow> dom_call list \<Rightarrow> page \<Rightarrow> exn option \<times> page" where
  "dom_calls fl [] s = (None, s)"
| "dom_calls fl (c # cs) s =
     (case fl c of
        Some err \<Rightarrow> (Some err, s)
      | None \<Rightarrow> dom_calls fl cs (emit (Dom c) s))"

subsection \<open>The literals of the script\<close>

definition select_file_msg :: jsstring where
  "select_file_msg =
     [0x30D5, 0x30A1, 0x30A4, 0x30EB, 0x3092, 0x9078, 0x629E,
      0x3057, 0x3066, 0x304F, 0x3060, 0x3055, 0x3044]"

definition generating_msg :: jsstring where
  "generating_msg = [0x751F, 0x6210, 0x4E2D] @ js ''...''"

definition error_prefix :: jsstring where
  "error_prefix = [0x30A8, 0x30E9, 0x30FC] @ js '': ''"

definition done_msg :: jsstring where
  "done_msg = [0x5B8C, 0x4E86, 0x3057, 0x307E, 0x3057, 0x305F]"

definition comm_error_prefix :: jsstring where
  "comm_error_prefix = [0x901A, 0x4FE1, 0x30A8, 0x30E9, 0x30FC] @ js '': ''"

definition endpoint :: jsstring where
  "endpoint = js ''http://localhost:7071/api/upload''"

subsection \<open>The click handler\<close>

text \<open>
  A run of the handler ends in one of three ways: it returned, it is suspended at an
  \<open>await\<close> (with the variables the rest of the body needs), or an exception left it.
\<close>

datatype cont = AwaitFetch jsfile | AwaitBlob jsfile response

datatype completion = Returned | Suspended cont | Thrown exn

definition catch_clause :: "exn \<Rightarrow> page \<Rightarrow> page" where
  "catch_clause err s = set_status (comm_error_prefix @ message err) s"

definition finally_clause :: "page \<Rightarrow> page" where
  "finally_clause s = set_disabled False s"

text \<open>
  \<open>try { ... } catch (err) { ... } finally { ... }\<close> around a piece of the body: an
  exception goes to the \<open>catch\<close> clause, \<open>finally\<close> runs when control leaves the
  statement, and a suspended body leaves neither.
\<close>

definition try_catch_finally :: "completion \<times> page \<Rightarrow> completion \<times> page" where
  "try_catch_finally r =
     (case r of
        (Thrown err, s) \<Rightarrow> (Returned, finally_clause (catch_clause err s))
      | (Returned, s) \<Rightarrow> (Returned, finally_clause s)
      | (Suspended k, s) \<Rightarrow> (Suspended k, s))"

text \<open>The file name of the download, lines 36 to 41.\<close>

definition download_name :: "jsfile \<Rightarrow> response \<Rightarrow> jsstring" where
  "download_name f res =
     (let contentDisposition = headers res (js ''content-disposition'');
          filename = replace (js ''.xlsx'') (js ''.md'') (name f)
      in case contentDisposition of
           None \<Rightarrow> filename
         | Some cd \<Rightarrow>
             if cd \<noteq> [] then
               (case match_filename cd of Some g \<Rightarrow> g | None \<Rightarrow> filename)
             else filename)"

text \<open>
  The DOM calls of lines 43 to 49. The anchor is appended, clicked and removed with the
  \<open>href\<close> and \<open>download\<close> that lines 45 and 46 gave it.
\<close>

definition download_calls :: "jsstring \<Rightarrow> blob \<Rightarrow> dom_call list" where
  "download_calls filename b =
     (let a = \<lparr>href = ObjectURL b, download = filename\<rparr>
      in [CreateObjectURL b, CreateElement (js ''a''), AppendChild a,
          AnchorClick a, AnchorRemove a])"

text \<open>From the click to the \<open>await fetch(...)\<close>.\<close>

definition on_click :: "jsfile option \<Rightarrow> page \<Rightarrow> completion \<times> page" where
  "on_click sel s =
     (case sel of
        None \<Rightarrow> (Returned, set_status select_file_msg s)
      | Some f \<Rightarrow>
          (let s1 = set_disabled True s;
               s2 = set_status generating_msg s1;
               formData = [(js ''file'', f)]
           in try_catch_finally
                (Suspended (AwaitFetch f),
                 emit (Fetch \<lparr>url = endpoint, http_method = js ''POST'', body = formData\<rparr>) s2)))"

text \<open>From the settling of \<open>fetch\<close> to the \<open>await res.blob()\<close>.\<close>

definition after_fetch :: "jsfile \<Rightarrow> exn + response \<Rightarrow> page \<Rightarrow> completion \<times> page" where
  "after_fetch f r s =
     try_catch_finally
       (case r of
          Inl err \<Rightarrow> (Thrown err, s)
        | Inr res \<Rightarrow>
            (let s1 = emit (ConsoleLog res) s
             in if \<not> ok res then
                  (Returned,
                   set_disabled False (set_status (error_prefix @ decimal (status res)) s1))
                else (Suspended (AwaitBlob f res), emit (ReadBlob res) s1)))"

text \<open>From the settling of \<open>res.blob()\<close> to the end.\<close>

definition after_blob ::
  "jsfile \<Rightarrow> response \<Rightarrow> exn + blob \<Rightarrow> faults \<Rightarrow> page \<Rightarrow> completion \<times> page" where
  "after_blob f res r fl s =
     try_catch_finally
       (case r of
          Inl err \<Rightarrow> (Thrown err, s)
        | Inr b \<Rightarrow>
            (let filename = download_name f res
             in case dom_calls fl (download_calls filename b) s of
                  (Some err, s1) \<Rightarrow> (Thrown err, s1)
                | (None, s1) \<Rightarrow> (Returned, set_status done_msg s1)))"

subsection \<open>One invocation, with both promises settled\<close>

text \<open>
  What the outside answers to one invocation: how \<open>fetch\<close> settles, how \<open>res.blob()\<close>
  settles, and which DOM calls throw.
\<close>

record env =
  fetch_result :: "exn + response"
  blob_result :: "exn + blob"
  dom_faults :: faults

fun resume :: "env \<Rightarrow> cont \<Rightarrow> page \<Rightarrow> completion \<times> page" where
  "resume e (AwaitFetch f) s = after_fetch f (fetch_result e) s"
| "resume e (AwaitBlob f res) s = after_blob f res (blob_result e) (dom_faults e) s"

definition resume_if_suspended :: "env \<Rightarrow> completion \<times> page \<Rightarrow> completion \<times> page" where
  "resume_if_suspended e r =
     (case r of
        (Suspended k, s) \<Rightarrow> resume e k s
      | (Returned, s) \<Rightarrow> (Returned, s)
      | (Thrown err, s) \<Rightarrow> (Thrown err, s))"

definition handler :: "jsfile option \<Rightarrow> env \<Rightarrow> page \<Rightarrow> completion \<times> page" where
  "handler sel e s = resume_if_suspended e (resume_if_suspended e (on_click sel s))"

definition no_faults :: faults where
  "no_faults c = None"

text \<open>The downloads a trace started: the clicks on an anchor, with name and content.\<close>

fun download_of :: "event \<Rightarrow> (jsstring \<times> blob) list" where
  "download_of (Dom (AnchorClick a)) = (case href a of ObjectURL b \<Rightarrow> [(download a, b)])"
| "download_of _ = []"

definition downloads :: "event list \<Rightarrow> (jsstring \<times> blob) list" where
  "downloads evs = concat (map download_of evs)"

fun is_fetch :: "event \<Rightarrow> bool" where
  "is_fetch (Fetch q) = True"
| "is_fetch _ = False"

fun is_read_blob :: "event \<Rightarrow> bool" where
  "is_read_blob (ReadBlob res) = True"
| "is_read_blob _ = False"

text \<open>
  The exception, if there is one, that the \<open>try\<close> block meets after a response has
  arrived: the rejection of \<open>res.blob()\<close>, or else the first DOM call that throws.
\<close>

fun first_fault :: "faults \<Rightarrow> dom_call list \<Rightarrow> exn option" where
  "first_fault fl [] = None"
| "first_fault fl (c # cs) =
     (case fl c of Some err \<Rightarrow> Some err | None \<Rightarrow> first_fault fl cs)"

definition thrown_after_transport :: "jsfile \<Rightarrow> response \<Rightarrow> env \<Rightarrow> exn option" where
  "thrown_after_transport f res e =
     (case blob_result e of
        Inl err \<Rightarrow> Some err
      | Inr b \<Rightarrow> first_fault (dom_faults e) (download_calls (download_name f res) b))"

text \<open>
  The fallback name as the specification words it, for comparison with \<open>replace\<close>:
  a \<open>.xlsx\<close> suffix of the original name is replaced with \<open>.md\<close>.
\<close>

definition replace_suffix :: "jsstring \<Rightarrow> jsstring \<Rightarrow> jsstring \<Rightarrow> jsstring" where
  "replace_suffix suf rep s =
     (if suffix suf s then take (length s - length suf) s @ rep else s)"

subsection \<open>The event loop\<close>

text \<open>
  The page between two turns of the event loop: the state the script owns, the selection
  of \<open>#fileInput\<close>, and the invocations of the handler that are suspended at an
  \<open>await\<close>. The inputs are what the user and the network do. A click on a disabled
  button is not dispatched, so no handler runs for it; a promise can only settle for an
  invocation that awaits it.
\<close>

record system =
  ui :: page
  selected :: "jsfile option"
  pending :: "cont list"

datatype input =
    Select "jsfile option"
  | Click
  | FetchSettles nat "exn + response"
  | BlobSettles nat "exn + blob" faults

definition parked :: "completion \<Rightarrow> cont list" where
  "parked c = (case c of Suspended k \<Rightarrow> [k] | Returned \<Rightarrow> [] | Thrown err \<Rightarrow> [])"

definition resumed :: "nat \<Rightarrow> completion \<times> page \<Rightarrow> system \<Rightarrow> system" where
  "resumed i r st =
     st\<lparr>ui := snd r,
        pending := take i (pending st) @ parked (fst r) @ drop (Suc i) (pending st)\<rparr>"

fun deliver :: "input \<Rightarrow> system \<Rightarrow> system option" where
  "deliver (Select sel) st = Some (st\<lparr>selected := sel\<rparr>)"
| "deliver Click st =
     (if disabled (ui st) then Some st
      else (let r = on_click (selected st) (ui st)
            in Some (st\<lparr>ui := snd r, pending := pending st @ parked (fst r)\<rparr>)))"
| "deliver (FetchSettles i r) st =
     (if i < length (pending st) then
        (case pending st ! i of
           AwaitFetch f \<Rightarrow> Some (resumed i (after_fetch f r (ui st)) st)
         | AwaitBlob f res \<Rightarrow> None)
      else None)"
| "deliver (BlobSettles i r fl) st =
     (if i < length (pending st) then
        (case pending st ! i of
           AwaitFetch f \<Rightarrow> None
         | AwaitBlob f res \<Rightarrow> Some (resumed i (after_blob f res r fl (ui st)) st))
      else None)"

fun run :: "input list \<Rightarrow> system \<Rightarrow> system option" where
  "run [] st = Some st"
| "run (x # xs) st = (case deliver x st of None \<Rightarrow> None | Some st' \<Rightarrow> run xs st')"

text \<open>
  Mutual exclusion by the button: at most one invocation is suspended, and the button is
  disabled exactly while one is.
\<close>

definition single_flight :: "system \<Rightarrow> bool" where
  "single_flight st =
     (length (pending st) \<le> 1 \<and> disabled (ui st) = (pending st \<noteq> []))"

section \<open>Properties\<close>

subsection \<open>Writes to the page\<close>

lemma emit_fields [simp]:
  "trace (emit ev s) = trace s @ [ev]"
  "disabled (emit ev s) = disabled s"
  "status_text (emit ev s) = status_text s"
  by (simp_all add: emit_def)

lemma set_status_fields [simp]:
  "trace (set_status t s) = trace s @ [SetStatus t]"
  "disabled (set_status t s) = disabled s"
  "status_text (set_status t s) = t"
  by (simp_all add: set_status_def)

lemma set_disabled_fields [simp]:
  "trace (set_disabled b s) = trace s @ [SetDisabled b]"
  "disabled (set_disabled b s) = b"
  "status_text (set_disabled b s) = status_text s"
  by (simp_all add: set_disabled_def)

lemma try_catch_finally_simps [simp]:
  "try_catch_finally (Returned, s) = (Returned, finally_clause s)"
  "try_catch_finally (Thrown err, s) = (Returned, finally_clause (catch_clause err s))"
  "try_catch_finally (Suspended k, s) = (Suspended k, s)"
  by (simp_all add: try_catch_finally_def)

lemma dom_calls_no_faults:
  "dom_calls no_faults cs s = (None, s\<lparr>trace := trace s @ map Dom cs\<rparr>)"
  by (induction cs arbitrary: s) (auto simp: no_faults_def emit_def)

lemma dom_calls_fst: "fst (dom_calls fl cs s) = first_fault fl cs"
  by (induction cs arbitrary: s) (auto split: option.splits)

lemma downloads_append [simp]: "downloads (xs @ ys) = downloads xs @ downloads ys"
  by (simp add: downloads_def)

lemma downloads_Nil [simp]: "downloads [] = []"
  by (simp add: downloads_def)

lemma downloads_Cons [simp]: "downloads (x # xs) = download_of x @ downloads xs"
  by (simp add: downloads_def)

lemma downloads_download_calls:
  "downloads (map Dom (download_calls fn b)) = [(fn, b)]"
  by (simp add: download_calls_def Let_def)

subsection \<open>\<open>replace\<close> with a string pattern\<close>

lemma replace_no_occurrence:
  "\<not> sublist pat s \<Longrightarrow> replace pat rep s = s"
proof (induction s)
  case Nil
  then show ?case by auto
next
  case (Cons c cs)
  from Cons.prems have "\<not> prefix pat (c # cs)"
    using prefix_imp_sublist by blast
  moreover from Cons.prems have "\<not> sublist pat cs"
    by (auto simp: sublist_Cons_right)
  ultimately show ?case using Cons.IH by simp
qed

lemma prefix_of_long_append:
  assumes "prefix p (xs @ ys)" "length p \<le> length xs"
  shows "prefix p xs"
  using assms by (auto simp: prefix_append)

text \<open>
  The occurrence of \<open>pat\<close> after \<open>pre\<close> is the first one when no occurrence starts
  inside \<open>pre\<close>, that is, when \<open>pat\<close> does not occur in \<open>pre @ butlast pat\<close>.
\<close>

lemma replace_first_occurrence:
  assumes "pat \<noteq> []" "\<not> sublist pat (pre @ butlast pat)"
  shows "replace pat rep (pre @ pat @ post) = pre @ rep @ post"
  using assms(2)
proof (induction pre)
  case Nil
  with assms(1) show ?case by (cases pat) auto
next
  case (Cons c pre)
  have "\<not> prefix pat ((c # pre) @ pat @ post)"
  proof
    assume p: "prefix pat ((c # pre) @ pat @ post)"
    have e: "pat @ post = butlast pat @ last pat # post"
      using assms(1) by (metis append.assoc append_Cons append_Nil append_butlast_last_id)
    from p have "prefix pat (((c # pre) @ butlast pat) @ (last pat # post))"
      by (simp add: e)
    moreover have "length pat \<le> length ((c # pre) @ butlast pat)" by simp
    ultimately have "prefix pat ((c # pre) @ butlast pat)"
      by (rule prefix_of_long_append)
    with Cons.prems show False using prefix_imp_sublist by blast
  qed
  moreover from Cons.prems have "\<not> sublist pat (pre @ butlast pat)"
    by (auto simp: sublist_Cons_right)
  ultimately show ?case using Cons.IH by simp
qed

text \<open>
  On a name whose only occurrence of the pattern is its suffix, \<open>replace\<close> and the
  replacement of a suffix agree.
\<close>

lemma replace_agrees_with_suffix:
  assumes "pat \<noteq> []" "\<not> sublist pat (base @ butlast pat)"
  shows "replace pat rep (base @ pat) = replace_suffix pat rep (base @ pat)"
proof -
  have "replace pat rep (base @ pat @ []) = base @ rep @ []"
    using assms by (rule replace_first_occurrence)
  moreover have "suffix pat (base @ pat)" by (simp add: suffix_def)
  ultimately show ?thesis by (simp add: replace_suffix_def)
qed

text \<open>
  More generally, they agree on every name in which the pattern occurs at most as the
  suffix, that is, not inside \<open>butlast s\<close>.
\<close>

lemma replace_agrees_unless_inner:
  assumes "pat \<noteq> []" "\<not> sublist pat (butlast s)"
  shows "replace pat rep s = replace_suffix pat rep s"
proof (cases "suffix pat s")
  case True
  then obtain base where s: "s = base @ pat" by (auto simp: suffix_def)
  with assms have "\<not> sublist pat (base @ butlast pat)" by (simp add: butlast_append)
  with assms(1) show ?thesis unfolding s by (rule replace_agrees_with_suffix)
next
  case False
  have "\<not> sublist pat s"
  proof
    assume "sublist pat s"
    then obtain ps ss where s: "s = ps @ pat @ ss" by (auto simp: sublist_def)
    show False
    proof (cases "ss = []")
      case True
      with s False show False by (simp add: suffix_def)
    next
      case nonempty: False
      with s assms(1) have "butlast s = ps @ pat @ butlast ss" by (simp add: butlast_append)
      with assms(2) show False by simp
    qed
  qed
  then have "replace pat rep s = s" by (rule replace_no_occurrence)
  with False show ?thesis by (simp add: replace_suffix_def)
qed

subsection \<open>The match of \<open>/filename="(.+)"/\<close>\<close>

lemma backtrack_Some:
  "backtrack s n = Some g \<Longrightarrow>
     \<exists>m. 0 < m \<and> m \<le> n \<and> m < length s \<and> s ! m = quote \<and> g = take m s"
proof (induction n)
  case 0
  then show ?case by simp
next
  case (Suc n)
  then show ?case by (fastforce split: if_splits)
qed

lemma backtrack_finds:
  "0 < m \<Longrightarrow> m \<le> n \<Longrightarrow> m < length s \<Longrightarrow> s ! m = quote \<Longrightarrow> backtrack s n \<noteq> None"
proof (induction n)
  case 0
  then show ?case by simp
next
  case (Suc n)
  then show ?case by (cases "m = Suc n") auto
qed

text \<open>Greedy: no quote that could end a longer capture is passed over.\<close>

lemma backtrack_greedy:
  "backtrack s n = Some g \<Longrightarrow> length g < m \<Longrightarrow> m \<le> n \<Longrightarrow> m < length s \<Longrightarrow>
     s ! m \<noteq> quote"
proof (induction n)
  case 0
  then show ?case by simp
next
  case (Suc n)
  then show ?case by (cases "m = Suc n") (auto split: if_splits)
qed

lemma dot_plus_quote_Some:
  assumes "dot_plus_quote s = Some g"
  shows "\<exists>post. s = g @ quote # post" and "g \<noteq> []"
    and "\<forall>c\<in>set g. \<not> line_terminator c"
proof -
  let ?run = "takeWhile (\<lambda>c. \<not> line_terminator c) s"
  from assms obtain m where m: "0 < m" "m \<le> length ?run" "m < length s" "s ! m = quote"
    "g = take m s"
    unfolding dot_plus_quote_def by (blast dest: backtrack_Some)
  have "s = take m s @ s ! m # drop (Suc m) s"
    using m(3) by (simp add: Cons_nth_drop_Suc)
  with m show "\<exists>post. s = g @ quote # post" by metis
  from m show "g \<noteq> []" by auto
  have "take m s = take m ?run"
  proof -
    have "take m s = take m (?run @ dropWhile (\<lambda>c. \<not> line_terminator c) s)" by simp
    also have "\<dots> = take m ?run" using m(2) by (simp only: take_append) simp
    finally show ?thesis .
  qed
  then have "set g \<subseteq> set ?run" using m(5) by (metis set_take_subset)
  then show "\<forall>c\<in>set g. \<not> line_terminator c" by (auto dest: set_takeWhileD)
qed

lemma dot_plus_quote_finds:
  assumes "g \<noteq> []" "\<forall>c\<in>set g. \<not> line_terminator c"
  shows "dot_plus_quote (g @ quote # post) \<noteq> None"
proof -
  let ?s = "g @ quote # post"
  have "takeWhile (\<lambda>c. \<not> line_terminator c) ?s
        = g @ takeWhile (\<lambda>c. \<not> line_terminator c) (quote # post)"
    using assms(2) by (simp add: takeWhile_append2)
  then have "length g \<le> length (takeWhile (\<lambda>c. \<not> line_terminator c) ?s)" by simp
  moreover have "0 < length g" using assms(1) by simp
  moreover have "length g < length ?s" by simp
  moreover have "?s ! length g = quote" by simp
  ultimately show ?thesis
    unfolding dot_plus_quote_def by (rule_tac backtrack_finds [of "length g"]) auto
qed

lemma match_here_Nil: "match_here [] = None"
  by (simp add: match_here_def filename_eq_quote_def)

lemma match_here_Some:
  assumes "match_here s = Some g"
  shows "\<exists>post. s = filename_eq_quote @ g @ quote # post" and "g \<noteq> []"
    and "\<forall>c\<in>set g. \<not> line_terminator c"
proof -
  from assms have p: "prefix filename_eq_quote s"
    and d: "dot_plus_quote (drop (length filename_eq_quote) s) = Some g"
    by (auto simp: match_here_def split: if_splits)
  from p have "s = filename_eq_quote @ drop (length filename_eq_quote) s"
    by (auto simp: prefix_def)
  with dot_plus_quote_Some(1) [OF d] show "\<exists>post. s = filename_eq_quote @ g @ quote # post"
    by metis
  from dot_plus_quote_Some(2,3) [OF d] show "g \<noteq> []" "\<forall>c\<in>set g. \<not> line_terminator c"
    by auto
qed

text \<open>
  What a match is: the header holds \<open>filename="\<close>, then the capture (not empty, no line
  terminator in it), then a quote.
\<close>

lemma match_filename_Some:
  "match_filename h = Some g \<Longrightarrow>
     (\<exists>pre post. h = pre @ filename_eq_quote @ g @ quote # post) \<and> g \<noteq> [] \<and>
     (\<forall>c\<in>set g. \<not> line_terminator c)"
proof (induction h)
  case Nil
  then show ?case by (simp add: match_here_Nil)
next
  case (Cons c cs)
  show ?case
  proof (cases "match_here (c # cs)")
    case None
    with Cons.prems have "match_filename cs = Some g" by simp
    from Cons.IH [OF this] obtain pre post where
      "cs = pre @ filename_eq_quote @ g @ quote # post" "g \<noteq> []"
      "\<forall>c\<in>set g. \<not> line_terminator c" by blast
    then have "c # cs = (c # pre) @ filename_eq_quote @ g @ quote # post" by simp
    with \<open>g \<noteq> []\<close> \<open>\<forall>c\<in>set g. \<not> line_terminator c\<close> show ?thesis by blast
  next
    case (Some g')
    with Cons.prems have "match_here (c # cs) = Some g" by simp
    from match_here_Some [OF this] show ?thesis by (metis append_Nil)
  qed
qed

text \<open>And every header of that shape matches.\<close>

lemma match_filename_finds:
  assumes "g \<noteq> []" "\<forall>c\<in>set g. \<not> line_terminator c"
  shows "match_filename (pre @ filename_eq_quote @ g @ quote # post) \<noteq> None"
proof (induction pre)
  case Nil
  have "match_here (filename_eq_quote @ g @ quote # post) \<noteq> None"
    using dot_plus_quote_finds [OF assms] by (simp add: match_here_def)
  moreover obtain c cs where "filename_eq_quote @ g @ quote # post = c # cs"
    by (cases "filename_eq_quote @ g @ quote # post") (auto simp: filename_eq_quote_def)
  ultimately show ?case by (auto split: option.splits)
next
  case (Cons c pre)
  then show ?case by (auto split: option.splits)
qed

subsection \<open>The pieces of the handler\<close>

lemma on_click_file:
  "on_click (Some f) s =
     (Suspended (AwaitFetch f),
      emit (Fetch \<lparr>url = endpoint, http_method = js ''POST'', body = [(js ''file'', f)]\<rparr>)
        (set_status generating_msg (set_disabled True s)))"
  by (simp add: on_click_def Let_def)

lemma after_fetch_outcome:
  "(fst (after_fetch f r s) = Returned \<and> \<not> disabled (snd (after_fetch f r s))) \<or>
   (\<exists>res. fst (after_fetch f r s) = Suspended (AwaitBlob f res) \<and>
      disabled (snd (after_fetch f r s)) = disabled s)"
  by (auto simp: after_fetch_def Let_def finally_clause_def catch_clause_def
      split: sum.splits)

lemma after_blob_returns:
  "fst (after_blob f res r fl s) = Returned \<and> \<not> disabled (snd (after_blob f res r fl s))"
  by (auto simp: after_blob_def Let_def finally_clause_def catch_clause_def
      split: sum.splits prod.splits option.splits)

text \<open>The run in which everything succeeds.\<close>

lemma success_run:
  assumes "fetch_result e = Inr res" "ok res" "blob_result e = Inr b"
    "dom_faults e = no_faults"
  shows "handler (Some f) e s =
    (Returned,
     s\<lparr>status_text := done_msg, disabled := False,
       trace := trace s @
         [SetDisabled True, SetStatus generating_msg,
          Fetch \<lparr>url = endpoint, http_method = js ''POST'', body = [(js ''file'', f)]\<rparr>,
          ConsoleLog res, ReadBlob res] @
         map Dom (download_calls (download_name f res) b) @
         [SetStatus done_msg, SetDisabled False]\<rparr>)"
  using assms
  by (simp add: handler_def on_click_file resume_if_suspended_def after_fetch_def
      after_blob_def Let_def dom_calls_no_faults finally_clause_def emit_def set_status_def
      set_disabled_def)

lemma success_downloads:
  assumes "fetch_result e = Inr res" "ok res" "blob_result e = Inr b"
    "dom_faults e = no_faults"
  shows "downloads (trace (snd (handler (Some f) e s))) =
         downloads (trace s) @ [(download_name f res, b)]"
  by (simp add: success_run [OF assms] downloads_download_calls)

subsection \<open>The invariant of the event loop\<close>

lemma on_click_single_flight:
  assumes "\<not> disabled s"
  shows "disabled (snd (on_click sel s)) = (parked (fst (on_click sel s)) \<noteq> []) \<and>
         length (parked (fst (on_click sel s))) \<le> 1"
  using assms by (cases sel) (simp_all add: on_click_def Let_def parked_def)

lemma deliver_single_flight:
  assumes "single_flight st" "deliver x st = Some st'"
  shows "single_flight st'"
proof (cases x)
  case (Select sel)
  with assms show ?thesis by (auto simp: single_flight_def)
next
  case Click
  show ?thesis
  proof (cases "disabled (ui st)")
    case True
    with assms Click show ?thesis by simp
  next
    case False
    with assms(1) have "pending st = []" by (simp add: single_flight_def)
    with assms(2) Click False on_click_single_flight [OF False, of "selected st"]
    show ?thesis by (auto simp: single_flight_def Let_def)
  qed
next
  case (FetchSettles i r)
  with assms(2) obtain f where i: "i < length (pending st)"
    and st': "st' = resumed i (after_fetch f r (ui st)) st"
    by (auto split: if_splits cont.splits)
  from assms(1) i have p: "i = 0" "length (pending st) = 1" "disabled (ui st)"
    by (auto simp: single_flight_def)
  then have "take i (pending st) = []" "drop (Suc i) (pending st) = []" by simp_all
  with after_fetch_outcome [of f r "ui st"] p(3) show ?thesis
    by (auto simp: st' resumed_def single_flight_def parked_def)
next
  case (BlobSettles i r fl)
  with assms(2) obtain f res where i: "i < length (pending st)"
    and st': "st' = resumed i (after_blob f res r fl (ui st)) st"
    by (auto split: if_splits cont.splits)
  from assms(1) i have p: "i = 0" "length (pending st) = 1"
    by (auto simp: single_flight_def)
  then have "take i (pending st) = []" "drop (Suc i) (pending st) = []" by simp_all
  with after_blob_returns [of f res r fl "ui st"] show ?thesis
    by (auto simp: st' resumed_def single_flight_def parked_def)
qed

lemma run_single_flight:
  "single_flight st \<Longrightarrow> run xs st = Some st' \<Longrightarrow> single_flight st'"
proof (induction xs arbitrary: st)
  case Nil
  then show ?case by simp
next
  case (Cons x xs)
  then show ?case by (auto split: option.splits dest: deliver_single_flight)
qed

section \<open>The properties of the specification\<close>

subsection \<open>The name and the content of the download\<close>

text \<open>
  Where the name has \<open>.xlsx\<close> at most as its suffix, the name of the download is
  the one the specification gives. After a response with a status from 200 to 299 whose
  body was read and whose download was built without an exception, exactly one download
  is started, with the body as content. Its name is the capture of
  \<open>/filename="(.+)"/\<close> when a \<open>content-disposition\<close> header is there and matches,
  and otherwise the original name with its \<open>.xlsx\<close> suffix replaced by \<open>.md\<close>.
\<close>

lemma filename_from_header_or_suffix:
  assumes "fetch_result e = Inr res" "ok res" "blob_result e = Inr b"
    "dom_faults e = no_faults"
    and "\<not> sublist (js ''.xlsx'') (butlast (name f))"
  shows "downloads (trace (snd (handler (Some f) e s))) =
         downloads (trace s) @
           [(case headers res (js ''content-disposition'') of
               None \<Rightarrow> replace_suffix (js ''.xlsx'') (js ''.md'') (name f)
             | Some cd \<Rightarrow>
                 (case match_filename cd of
                    Some g \<Rightarrow> g
                  | None \<Rightarrow> replace_suffix (js ''.xlsx'') (js ''.md'') (name f)), b)]"
proof -
  have "js ''.xlsx'' \<noteq> []" by (simp add: js_def)
  then have "replace (js ''.xlsx'') (js ''.md'') (name f)
             = replace_suffix (js ''.xlsx'') (js ''.md'') (name f)"
    using assms(5) by (rule replace_agrees_unless_inner)
  then have "download_name f res =
          (case headers res (js ''content-disposition'') of
               None \<Rightarrow> replace_suffix (js ''.xlsx'') (js ''.md'') (name f)
             | Some cd \<Rightarrow>
                 (case match_filename cd of
                    Some g \<Rightarrow> g
                  | None \<Rightarrow> replace_suffix (js ''.xlsx'') (js ''.md'') (name f)))"
    by (simp add: download_name_def Let_def match_here_Nil split: option.splits)
  then show ?thesis
    using success_downloads [OF assms(1-4)] by simp
qed

text \<open>
  C1. After a successful response without a matching \<open>content-disposition\<close> header,
  the download is to be named after the selected file, with the \<open>.xlsx\<close> suffix
  replaced by \<open>.md\<close>. Line 37 does this with \<open>replace('.xlsx', '.md')\<close>, which
  replaces the first occurrence and not the suffix. For the name \<open>a.xlsx.xlsx\<close> and a
  200 response without the header, the download is named \<open>a.md.xlsx\<close>, where the
  replacement of the suffix gives \<open>a.xlsx.md\<close>: the Markdown file keeps the extension
  \<open>.xlsx\<close>.
\<close>

theorem filename_not_suffix_replacement:
  "downloads (trace (snd (handler
      (Some \<lparr>name = js ''a.xlsx.xlsx'', content = []\<rparr>)
      \<lparr>fetch_result = Inr (\<lparr>status = 200, headers = Map.empty\<rparr>), blob_result = Inr [], dom_faults = no_faults\<rparr>
      \<lparr>status_text = [], disabled = False, trace = []\<rparr>)))
     = [(js ''a.md.xlsx'', [])] \<and>
   replace_suffix (js ''.xlsx'') (js ''.md'') (js ''a.xlsx.xlsx'') = js ''a.xlsx.md'' \<and>
   js ''a.md.xlsx'' \<noteq> js ''a.xlsx.md''"
  by (simp add: handler_def on_click_def resume_if_suspended_def after_fetch_def
      after_blob_def ok_def download_name_def download_calls_def no_faults_def Let_def
      finally_clause_def replace_suffix_def suffix_to_prefix js_def)

text \<open>
  C2. For any selected file: when the request resolves with status 200 and the header
  \<open>content-disposition: filename="out.md"\<close>, and the body is read as \<open>B\<close>, the download
  that is started is named \<open>out.md\<close> and its content is \<open>B\<close>.
\<close>

theorem download_out_md:
  assumes "fetch_result e = Inr res" "status res = 200"
    and "headers res (js ''content-disposition'') =
           Some (js ''filename='' @ [quote] @ js ''out.md'' @ [quote])"
    and "blob_result e = Inr B" "dom_faults e = no_faults"
  shows "downloads (trace (snd (handler (Some f) e s))) =
         downloads (trace s) @ [(js ''out.md'', B)]"
proof -
  have "ok res" using assms(2) by (simp add: ok_def)
  moreover have "match_filename (js ''filename='' @ [quote] @ js ''out.md'' @ [quote])
                 = Some (js ''out.md'')"
    by (simp add: js_def match_here_def filename_eq_quote_def quote_def dot_plus_quote_def
        line_terminator_def)
  then have "download_name f res = js ''out.md''"
    using assms(3) by (simp add: download_name_def Let_def js_def)
  ultimately show ?thesis
    using success_downloads [OF assms(1) _ assms(4,5)] by simp
qed

theorem download_out_md_witness:
  "downloads (trace (snd (handler (Some \<lparr>name = js ''report.xlsx'', content = [80, 75]\<rparr>)
      \<lparr>fetch_result = Inr (\<lparr>status = 200, headers = [js ''content-disposition'' \<mapsto> js ''filename='' @ [quote] @ js ''out.md'' @ [quote]]\<rparr>), blob_result = Inr [35, 32, 72], dom_faults = no_faults\<rparr>
      \<lparr>status_text = [], disabled = False, trace = []\<rparr>)))
   = [(js ''out.md'', [35, 32, 72])]"
  using download_out_md
    [where e = "\<lparr>fetch_result = Inr (\<lparr>status = 200, headers = [js ''content-disposition'' \<mapsto> js ''filename='' @ [quote] @ js ''out.md'' @ [quote]]\<rparr>), blob_result = Inr [35, 32, 72], dom_faults = no_faults\<rparr>"
       and res = "\<lparr>status = 200, headers = [js ''content-disposition'' \<mapsto> js ''filename='' @ [quote] @ js ''out.md'' @ [quote]]\<rparr>"
       and B = "[35, 32, 72]" and f = "\<lparr>name = js ''report.xlsx'', content = [80, 75]\<rparr>"
       and s = "\<lparr>status_text = [], disabled = False, trace = []\<rparr>"]
  by simp

text \<open>
  C8. For a selected file named \<open>report.xlsx\<close> and a 200 response without a
  \<open>content-disposition\<close> header, the download is named \<open>report.md\<close>.
\<close>

theorem report_xlsx_becomes_report_md:
  assumes "name f = js ''report.xlsx''"
    and "fetch_result e = Inr res" "status res = 200"
    and "headers res (js ''content-disposition'') = None"
    and "blob_result e = Inr b" "dom_faults e = no_faults"
  shows "downloads (trace (snd (handler (Some f) e s))) =
         downloads (trace s) @ [(js ''report.md'', b)]"
proof -
  have "ok res" using assms(3) by (simp add: ok_def)
  moreover have "download_name f res = js ''report.md''"
    using assms(1,4) by (simp add: download_name_def Let_def js_def)
  ultimately show ?thesis
    using success_downloads [OF assms(2) _ assms(5,6)] by simp
qed

theorem report_xlsx_becomes_report_md_witness:
  "downloads (trace (snd (handler (Some \<lparr>name = js ''report.xlsx'', content = [80, 75]\<rparr>)
      \<lparr>fetch_result = Inr (\<lparr>status = 200, headers = Map.empty\<rparr>), blob_result = Inr [35, 32, 72], dom_faults = no_faults\<rparr>
      \<lparr>status_text = [], disabled = False, trace = []\<rparr>)))
   = [(js ''report.md'', [35, 32, 72])]"
  using report_xlsx_becomes_report_md
    [where e = "\<lparr>fetch_result = Inr (\<lparr>status = 200, headers = Map.empty\<rparr>), blob_result = Inr [35, 32, 72], dom_faults = no_faults\<rparr>"
       and res = "\<lparr>status = 200, headers = Map.empty\<rparr>"
       and b = "[35, 32, 72]" and f = "\<lparr>name = js ''report.xlsx'', content = [80, 75]\<rparr>"
       and s = "\<lparr>status_text = [], disabled = False, trace = []\<rparr>"]
  by simp

text \<open>
  C9. For a selected file whose name has no occurrence of \<open>.xlsx\<close>, and a response with
  a status from 200 to 299 whose \<open>content-disposition\<close> header is absent or does not
  match, the download keeps the original name.
\<close>

theorem name_without_xlsx_unchanged:
  assumes "\<not> sublist (js ''.xlsx'') (name f)"
    and "fetch_result e = Inr res" "ok res"
    and "headers res (js ''content-disposition'') = None \<or>
         (\<exists>cd. headers res (js ''content-disposition'') = Some cd \<and>
            match_filename cd = None)"
    and "blob_result e = Inr b" "dom_faults e = no_faults"
  shows "downloads (trace (snd (handler (Some f) e s))) =
         downloads (trace s) @ [(name f, b)]"
proof -
  have "replace (js ''.xlsx'') (js ''.md'') (name f) = name f"
    using assms(1) by (rule replace_no_occurrence)
  with assms(4) have "download_name f res = name f"
    by (auto simp: download_name_def Let_def)
  then show ?thesis
    using success_downloads [OF assms(2,3,5,6)] by simp
qed

text \<open>The file \<open>notes.txt\<close> and a 204 response with the header \<open>attachment\<close>.\<close>

theorem name_without_xlsx_unchanged_witness:
  "\<not> sublist (js ''.xlsx'') (js ''notes.txt'') \<and>
   match_filename (js ''attachment'') = None \<and>
   downloads (trace (snd (handler (Some \<lparr>name = js ''notes.txt'', content = [80, 75]\<rparr>)
      \<lparr>fetch_result = Inr (\<lparr>status = 204, headers = [js ''content-disposition'' \<mapsto> js ''attachment'']\<rparr>), blob_result = Inr [35, 32, 72], dom_faults = no_faults\<rparr>
      \<lparr>status_text = [], disabled = False, trace = []\<rparr>)))
   = [(js ''notes.txt'', [35, 32, 72])]"
  using name_without_xlsx_unchanged
    [where e = "\<lparr>fetch_result = Inr (\<lparr>status = 204, headers = [js ''content-disposition'' \<mapsto> js ''attachment'']\<rparr>), blob_result = Inr [35, 32, 72], dom_faults = no_faults\<rparr>"
       and res = "\<lparr>status = 204, headers = [js ''content-disposition'' \<mapsto> js ''attachment'']\<rparr>"
       and b = "[35, 32, 72]" and f = "\<lparr>name = js ''notes.txt'', content = [80, 75]\<rparr>"
       and s = "\<lparr>status_text = [], disabled = False, trace = []\<rparr>"]
  by (simp add: ok_def sublist_code js_def match_here_def filename_eq_quote_def quote_def dot_plus_quote_def
        line_terminator_def)

subsection \<open>The outcomes of one invocation\<close>

text \<open>
  C3. An invocation with a file selected ends with the button enabled, however
  \<open>fetch\<close> and \<open>res.blob()\<close> settle and whichever DOM call throws: the handler returns
  and \<open>uploadBtn.disabled\<close> is false.
\<close>

theorem trigger_enabled_at_end:
  "fst (handler (Some f) e s) = Returned \<and> \<not> disabled (snd (handler (Some f) e s))"
proof (cases "after_fetch f (fetch_result e)
    (emit (Fetch \<lparr>url = endpoint, http_method = js ''POST'', body = [(js ''file'', f)]\<rparr>)
        (set_status generating_msg (set_disabled True s)))")
  case (Pair c2 s2)
  then show ?thesis
    using after_fetch_outcome [of f "fetch_result e"
        "emit (Fetch \<lparr>url = endpoint, http_method = js ''POST'', body = [(js ''file'', f)]\<rparr>)
        (set_status generating_msg (set_disabled True s))"] after_blob_returns
    by (cases c2) (auto simp: handler_def on_click_file resume_if_suspended_def)
qed

theorem trigger_enabled_at_end_witness:
  "fst (handler (Some \<lparr>name = js ''report.xlsx'', content = [80, 75]\<rparr>)
      \<lparr>fetch_result = Inr (\<lparr>status = 200, headers = Map.empty\<rparr>), blob_result = Inl (Error (js ''body lost'')), dom_faults = no_faults\<rparr>
      \<lparr>status_text = [], disabled = True, trace = []\<rparr>) = Returned \<and>
   \<not> disabled (snd (handler (Some \<lparr>name = js ''report.xlsx'', content = [80, 75]\<rparr>)
      \<lparr>fetch_result = Inr (\<lparr>status = 200, headers = Map.empty\<rparr>), blob_result = Inl (Error (js ''body lost'')), dom_faults = no_faults\<rparr>
      \<lparr>status_text = [], disabled = True, trace = []\<rparr>))"
  using trigger_enabled_at_end
    [where e = "\<lparr>fetch_result = Inr (\<lparr>status = 200, headers = Map.empty\<rparr>), blob_result = Inl (Error (js ''body lost'')), dom_faults = no_faults\<rparr>"
       and f = "\<lparr>name = js ''report.xlsx'', content = [80, 75]\<rparr>"
       and s = "\<lparr>status_text = [], disabled = True, trace = []\<rparr>"]
  by simp

text \<open>
  C4. A click with no file selected sets the status text to the message that asks for a
  file and does nothing else: the handler returns, the trace gains that one write, so no
  request is issued and the button is not written to, and the button stays as it was.
\<close>

theorem no_file_selected:
  "fst (handler None e s) = Returned \<and>
   status_text (snd (handler None e s)) = select_file_msg \<and>
   trace (snd (handler None e s)) = trace s @ [SetStatus select_file_msg] \<and>
   filter is_fetch (trace (snd (handler None e s))) = filter is_fetch (trace s) \<and>
   disabled (snd (handler None e s)) = disabled s"
  by (simp add: handler_def on_click_def resume_if_suspended_def)

theorem no_file_selected_witness:
  "status_text (snd (handler None
      \<lparr>fetch_result = Inr (\<lparr>status = 200, headers = Map.empty\<rparr>), blob_result = Inr [35, 32, 72], dom_faults = no_faults\<rparr>
      \<lparr>status_text = [], disabled = False, trace = []\<rparr>)) = select_file_msg \<and>
   trace (snd (handler None
      \<lparr>fetch_result = Inr (\<lparr>status = 200, headers = Map.empty\<rparr>), blob_result = Inr [35, 32, 72], dom_faults = no_faults\<rparr>
      \<lparr>status_text = [], disabled = False, trace = []\<rparr>)) = [SetStatus select_file_msg] \<and>
   \<not> disabled (snd (handler None
      \<lparr>fetch_result = Inr (\<lparr>status = 200, headers = Map.empty\<rparr>), blob_result = Inr [35, 32, 72], dom_faults = no_faults\<rparr>
      \<lparr>status_text = [], disabled = False, trace = []\<rparr>))"
  using no_file_selected
    [where e = "\<lparr>fetch_result = Inr (\<lparr>status = 200, headers = Map.empty\<rparr>), blob_result = Inr [35, 32, 72], dom_faults = no_faults\<rparr>"
       and s = "\<lparr>status_text = [], disabled = False, trace = []\<rparr>"]
  by simp

text \<open>
  C5. When \<open>fetch\<close> resolves with a status outside 200 to 299, the status text is the
  error prefix followed by the status code in decimal, the button is enabled again, the
  handler returns, and the body of the response is not read: the trace has no
  \<open>res.blob()\<close>.
\<close>

theorem http_error_reported:
  assumes "fetch_result e = Inr res" "\<not> ok res"
  shows "handler (Some f) e s =
    (Returned,
     s\<lparr>status_text := error_prefix @ decimal (status res), disabled := False,
       trace := trace s @
         [SetDisabled True, SetStatus generating_msg,
          Fetch \<lparr>url = endpoint, http_method = js ''POST'', body = [(js ''file'', f)]\<rparr>,
          ConsoleLog res, SetStatus (error_prefix @ decimal (status res)),
          SetDisabled False, SetDisabled False]\<rparr>) \<and>
    sublist (decimal (status res)) (status_text (snd (handler (Some f) e s))) \<and>
    filter is_read_blob (trace (snd (handler (Some f) e s))) = filter is_read_blob (trace s)"
proof -
  have "handler (Some f) e s =
    (Returned,
     s\<lparr>status_text := error_prefix @ decimal (status res), disabled := False,
       trace := trace s @
         [SetDisabled True, SetStatus generating_msg,
          Fetch \<lparr>url = endpoint, http_method = js ''POST'', body = [(js ''file'', f)]\<rparr>,
          ConsoleLog res, SetStatus (error_prefix @ decimal (status res)),
          SetDisabled False, SetDisabled False]\<rparr>)"
    using assms
    by (simp add: handler_def on_click_file resume_if_suspended_def after_fetch_def
        Let_def finally_clause_def emit_def set_status_def set_disabled_def)
  then show ?thesis by simp
qed

text \<open>A 500 response: the status text ends in \<open>500\<close>.\<close>

theorem http_error_reported_witness:
  "status_text (snd (handler (Some \<lparr>name = js ''report.xlsx'', content = [80, 75]\<rparr>)
      \<lparr>fetch_result = Inr (\<lparr>status = 500, headers = Map.empty\<rparr>), blob_result = Inr [35, 32, 72], dom_faults = no_faults\<rparr>
      \<lparr>status_text = [], disabled = False, trace = []\<rparr>)) = error_prefix @ js ''500'' \<and>
   \<not> disabled (snd (handler (Some \<lparr>name = js ''report.xlsx'', content = [80, 75]\<rparr>)
      \<lparr>fetch_result = Inr (\<lparr>status = 500, headers = Map.empty\<rparr>), blob_result = Inr [35, 32, 72], dom_faults = no_faults\<rparr>
      \<lparr>status_text = [], disabled = False, trace = []\<rparr>))"
  using http_error_reported
    [where e = "\<lparr>fetch_result = Inr (\<lparr>status = 500, headers = Map.empty\<rparr>), blob_result = Inr [35, 32, 72], dom_faults = no_faults\<rparr>"
       and res = "\<lparr>status = 500, headers = Map.empty\<rparr>"
       and f = "\<lparr>name = js ''report.xlsx'', content = [80, 75]\<rparr>"
       and s = "\<lparr>status_text = [], disabled = False, trace = []\<rparr>"]
  by (simp add: ok_def decimal.simps digit_def js_def)

text \<open>
  C6. When \<open>fetch\<close> rejects with an error whose message is \<open>m\<close>, the status text is the
  prefix of the communication error followed by \<open>m\<close>, the button is enabled again and
  the handler returns.
\<close>

theorem network_error_reported:
  assumes "fetch_result e = Inl err"
  shows "handler (Some f) e s =
    (Returned,
     s\<lparr>status_text := comm_error_prefix @ message err, disabled := False,
       trace := trace s @
         [SetDisabled True, SetStatus generating_msg,
          Fetch \<lparr>url = endpoint, http_method = js ''POST'', body = [(js ''file'', f)]\<rparr>,
          SetStatus (comm_error_prefix @ message err), SetDisabled False]\<rparr>) \<and>
    sublist (message err) (status_text (snd (handler (Some f) e s)))"
proof -
  have "handler (Some f) e s =
    (Returned,
     s\<lparr>status_text := comm_error_prefix @ message err, disabled := False,
       trace := trace s @
         [SetDisabled True, SetStatus generating_msg,
          Fetch \<lparr>url = endpoint, http_method = js ''POST'', body = [(js ''file'', f)]\<rparr>,
          SetStatus (comm_error_prefix @ message err), SetDisabled False]\<rparr>)"
    using assms
    by (simp add: handler_def on_click_file resume_if_suspended_def after_fetch_def
        Let_def finally_clause_def catch_clause_def emit_def set_status_def set_disabled_def)
  then show ?thesis by simp
qed

theorem network_error_reported_witness:
  "status_text (snd (handler (Some \<lparr>name = js ''report.xlsx'', content = [80, 75]\<rparr>)
      \<lparr>fetch_result = Inl (Error (js ''offline'')), blob_result = Inr [35, 32, 72], dom_faults = no_faults\<rparr>
      \<lparr>status_text = [], disabled = False, trace = []\<rparr>)) = comm_error_prefix @ js ''offline'' \<and>
   \<not> disabled (snd (handler (Some \<lparr>name = js ''report.xlsx'', content = [80, 75]\<rparr>)
      \<lparr>fetch_result = Inl (Error (js ''offline'')), blob_result = Inr [35, 32, 72], dom_faults = no_faults\<rparr>
      \<lparr>status_text = [], disabled = False, trace = []\<rparr>))"
  using network_error_reported
    [where e = "\<lparr>fetch_result = Inl (Error (js ''offline'')), blob_result = Inr [35, 32, 72], dom_faults = no_faults\<rparr>"
       and err = "Error (js ''offline'')"
       and f = "\<lparr>name = js ''report.xlsx'', content = [80, 75]\<rparr>"
       and s = "\<lparr>status_text = [], disabled = False, trace = []\<rparr>"]
  by simp

text \<open>
  C10. An exception that the \<open>try\<close> block meets after a response with a status from 200
  to 299 has arrived, from \<open>res.blob()\<close> or from a DOM call of the download, is caught
  and reported as a rejection of \<open>fetch\<close> with the same error is: the status text is
  the prefix of the communication error followed by the message, the button is enabled,
  and the handler returns, so that no exception leaves it.
\<close>

theorem late_exception_reported:
  assumes "fetch_result e = Inr res" "ok res" "thrown_after_transport f res e = Some err"
  shows "fst (handler (Some f) e s) = Returned \<and>
         status_text (snd (handler (Some f) e s)) = comm_error_prefix @ message err \<and>
         \<not> disabled (snd (handler (Some f) e s)) \<and>
         status_text (snd (handler (Some f) e s)) =
           status_text (snd (handler (Some f) (e\<lparr>fetch_result := Inl err\<rparr>) s)) \<and>
         disabled (snd (handler (Some f) e s)) =
           disabled (snd (handler (Some f) (e\<lparr>fetch_result := Inl err\<rparr>) s))"
proof -
  let ?s2 = "emit (ReadBlob res) (emit (ConsoleLog res)
     (emit (Fetch \<lparr>url = endpoint, http_method = js ''POST'', body = [(js ''file'', f)]\<rparr>)
        (set_status generating_msg (set_disabled True s))))"
  let ?cs = "download_calls (download_name f res)"
  have h: "handler (Some f) e s = after_blob f res (blob_result e) (dom_faults e) ?s2"
    using assms(1,2)
    by (simp add: handler_def on_click_file resume_if_suspended_def after_fetch_def Let_def)
  have "fst (after_blob f res (blob_result e) (dom_faults e) ?s2) = Returned \<and>
        status_text (snd (after_blob f res (blob_result e) (dom_faults e) ?s2))
          = comm_error_prefix @ message err \<and>
        \<not> disabled (snd (after_blob f res (blob_result e) (dom_faults e) ?s2))"
  proof (cases "blob_result e")
    case (Inl x)
    with assms(3) show ?thesis
      by (simp add: thrown_after_transport_def after_blob_def finally_clause_def
          catch_clause_def)
  next
    case (Inr b)
    obtain r s3 where d: "dom_calls (dom_faults e) (?cs b) ?s2 = (r, s3)"
      by (cases "dom_calls (dom_faults e) (?cs b) ?s2")
    with assms(3) Inr have "r = Some err"
      using dom_calls_fst [of "dom_faults e" "?cs b" ?s2]
      by (simp add: thrown_after_transport_def)
    with Inr d show ?thesis
      by (simp add: after_blob_def Let_def finally_clause_def catch_clause_def)
  qed
  moreover have "handler (Some f) (e\<lparr>fetch_result := Inl err\<rparr>) s =
    (Returned,
     s\<lparr>status_text := comm_error_prefix @ message err, disabled := False,
       trace := trace s @
         [SetDisabled True, SetStatus generating_msg,
          Fetch \<lparr>url = endpoint, http_method = js ''POST'', body = [(js ''file'', f)]\<rparr>,
          SetStatus (comm_error_prefix @ message err), SetDisabled False]\<rparr>)"
    by (simp add: handler_def on_click_file resume_if_suspended_def after_fetch_def
      Let_def finally_clause_def catch_clause_def emit_def set_status_def set_disabled_def)
  ultimately show ?thesis by (simp add: h)
qed

text \<open>A 200 response whose body is read, and \<open>a.remove()\<close> throws.\<close>

theorem late_exception_reported_witness:
  "thrown_after_transport \<lparr>name = js ''report.xlsx'', content = [80, 75]\<rparr>
      (\<lparr>status = 200, headers = Map.empty\<rparr>)
      \<lparr>fetch_result = Inr (\<lparr>status = 200, headers = Map.empty\<rparr>), blob_result = Inr [35, 32, 72], dom_faults = (\<lambda>c. case c of AnchorRemove a \<Rightarrow> Some (Error (js ''detached'')) | _ \<Rightarrow> None)\<rparr> = Some (Error (js ''detached'')) \<and>
   fst (handler (Some \<lparr>name = js ''report.xlsx'', content = [80, 75]\<rparr>)
      \<lparr>fetch_result = Inr (\<lparr>status = 200, headers = Map.empty\<rparr>), blob_result = Inr [35, 32, 72], dom_faults = (\<lambda>c. case c of AnchorRemove a \<Rightarrow> Some (Error (js ''detached'')) | _ \<Rightarrow> None)\<rparr>
      \<lparr>status_text = [], disabled = False, trace = []\<rparr>) = Returned \<and>
   status_text (snd (handler (Some \<lparr>name = js ''report.xlsx'', content = [80, 75]\<rparr>)
      \<lparr>fetch_result = Inr (\<lparr>status = 200, headers = Map.empty\<rparr>), blob_result = Inr [35, 32, 72], dom_faults = (\<lambda>c. case c of AnchorRemove a \<Rightarrow> Some (Error (js ''detached'')) | _ \<Rightarrow> None)\<rparr>
      \<lparr>status_text = [], disabled = False, trace = []\<rparr>)) = comm_error_prefix @ js ''detached''"
  using late_exception_reported
    [where e = "\<lparr>fetch_result = Inr (\<lparr>status = 200, headers = Map.empty\<rparr>), blob_result = Inr [35, 32, 72], dom_faults = (\<lambda>c. case c of AnchorRemove a \<Rightarrow> Some (Error (js ''detached'')) | _ \<Rightarrow> None)\<rparr>"
       and res = "\<lparr>status = 200, headers = Map.empty\<rparr>"
       and err = "Error (js ''detached'')"
       and f = "\<lparr>name = js ''report.xlsx'', content = [80, 75]\<rparr>"
       and s = "\<lparr>status_text = [], disabled = False, trace = []\<rparr>"]
  by (simp add: ok_def thrown_after_transport_def download_calls_def Let_def)

subsection \<open>One upload at a time\<close>

text \<open>
  C7. With a file selected, the handler disables the button, then sets the status text to
  the generating message, then issues the POST, in this order, and suspends. In every
  state the page reaches from one with an enabled button and no suspended invocation,
  under any clicks, selections and settlings, at most one invocation is suspended, and
  the button is disabled exactly while one is: it is enabled again only by the run that
  a settled promise resumes. (A click on a disabled button is not dispatched; this is the
  browser's part of the mutual exclusion.)
\<close>

theorem one_upload_in_flight:
  assumes "pending st0 = []" "\<not> disabled (ui st0)" "run xs st0 = Some st"
  shows "fst (on_click (Some f) s) = Suspended (AwaitFetch f) \<and>
         disabled (snd (on_click (Some f) s)) \<and>
         trace (snd (on_click (Some f) s)) =
           trace s @ [SetDisabled True, SetStatus generating_msg,
              Fetch \<lparr>url = endpoint, http_method = js ''POST'', body = [(js ''file'', f)]\<rparr>] \<and>
         length (pending st) \<le> 1 \<and>
         disabled (ui st) = (pending st \<noteq> [])"
proof -
  have "single_flight st0" using assms(1,2) by (simp add: single_flight_def)
  then have "single_flight st" using assms(3) by (rule run_single_flight)
  then show ?thesis by (simp add: single_flight_def on_click_file)
qed

text \<open>
  A file is selected and the button is clicked twice; the second click is not dispatched.
  Then the response arrives, and the one invocation waits for the body.
\<close>

theorem one_upload_in_flight_witness:
  "run [Select (Some \<lparr>name = js ''report.xlsx'', content = [80, 75]\<rparr>), Click, Click,
        FetchSettles 0 (Inr (\<lparr>status = 200, headers = Map.empty\<rparr>))]
       \<lparr>ui = \<lparr>status_text = [], disabled = False, trace = []\<rparr>, selected = None,
         pending = []\<rparr>
     \<noteq> None \<and>
   length (pending (the (run
       [Select (Some \<lparr>name = js ''report.xlsx'', content = [80, 75]\<rparr>), Click, Click,
        FetchSettles 0 (Inr (\<lparr>status = 200, headers = Map.empty\<rparr>))]
       \<lparr>ui = \<lparr>status_text = [], disabled = False, trace = []\<rparr>, selected = None,
         pending = []\<rparr>)))
     = 1 \<and>
   disabled (ui (the (run
       [Select (Some \<lparr>name = js ''report.xlsx'', content = [80, 75]\<rparr>), Click, Click,
        FetchSettles 0 (Inr (\<lparr>status = 200, headers = Map.empty\<rparr>))]
       \<lparr>ui = \<lparr>status_text = [], disabled = False, trace = []\<rparr>, selected = None,
         pending = []\<rparr>)))"
proof -
  let ?xs = "[Select (Some \<lparr>name = js ''report.xlsx'', content = [80, 75]\<rparr>), Click, Click,
        FetchSettles 0 (Inr (\<lparr>status = 200, headers = Map.empty\<rparr>))]"
  let ?st0 = "\<lparr>ui = \<lparr>status_text = [], disabled = False, trace = []\<rparr>, selected = None,
         pending = []\<rparr>"
  have e: "run ?xs ?st0 = Some (the (run ?xs ?st0))"
    by (simp add: on_click_def Let_def parked_def resumed_def after_fetch_def ok_def)
  show ?thesis
    using one_upload_in_flight [OF _ _ e, of "\<lparr>name = js ''report.xlsx'', content = [80, 75]\<rparr>"
        "\<lparr>status_text = [], disabled = False, trace = []\<rparr>"]
    by (simp add: on_click_def Let_def parked_def resumed_def after_fetch_def ok_def)
qed

end
